theory Spec2Isabelle
  imports Complex_Main "HOL-Library.Sublist" "HOL-Library.Multiset"
begin

section \<open>The cashier's object counter (Cashier\_object\_detection.py)\<close>

text \<open>
  The script keeps two pieces of state in \<^verbatim>\<open>run_cashier\<close>: \<^verbatim>\<open>counts\<close>, a
  \<^verbatim>\<open>defaultdict(int)\<close> from class name to count, and \<^verbatim>\<open>seen_objects\<close>, a list of
  \<^verbatim>\<open>(class, box)\<close> pairs. The detector, the camera and the drawing calls are external;
  the model takes what the detector delivers (per frame, a list of results, each a list
  of boxes) as input and passes the state explicitly.
\<close>

subsection \<open>Data\<close>

text \<open>
  A box after \<^verbatim>\<open>map(int, box.xyxy[0])\<close> is four Python integers. Before the conversion
  a coordinate is a float: finite, NaN or an infinity. Finite floats are modelled by
  their rational value.
\<close>

type_synonym box = "int \<times> int \<times> int \<times> int"

datatype pyfloat = Finite rat | NaN | PosInf | NegInf

datatype error = ValueError | OverflowError | KeyError

text \<open>
  What the loop body reads from one detector box: \<^verbatim>\<open>model.names[int(box.cls[0])]\<close>
  (the class name) and \<^verbatim>\<open>box.xyxy[0]\<close> (the raw coordinates).
\<close>

record detection =
  cls_name :: string
  xyxy :: "pyfloat list"

type_synonym counts_dict = "(string \<times> int) list"

record session =
  counts :: counts_dict
  seen_objects :: "(string \<times> box) list"

definition PRICE_LIST :: "(string \<times> int) list" where
  "PRICE_LIST =
     [(''apple'', 30), (''banana'', 10), (''orange'', 25), (''bottle'', 50), (''cup'', 40),
      (''sandwich'', 50), (''pizza'', 80), (''donut'', 35), (''cake'', 100)]"

text \<open>\<^verbatim>\<open>cls_name in PRICE_LIST\<close>: membership among the keys of the dictionary.\<close>

definition in_PRICE_LIST :: "string \<Rightarrow> bool" where
  "in_PRICE_LIST name = (map_of PRICE_LIST name \<noteq> None)"

definition session_start :: session where
  "session_start = \<lparr>counts = [], seen_objects = []\<rparr>"

subsection \<open>The proximity test\<close>

text \<open>
  \<^verbatim>\<open>is_same_object(box1, box2, threshold=50)\<close>. Python divides the integer sums by 2
  in 64-bit floats and subtracts the centres as floats. The model computes in the
  rationals: it is the code's function on boxes whose coordinate sums are at most
  \<open>2^52\<close> in magnitude (\<open>exact_centres\<close> below), where every centre and every
  difference of two centres is a float and nothing is rounded. Beyond that bound the
  floats round and the model does not follow them, so what is proved of the test's
  arithmetic carries the bound as a hypothesis.
\<close>

fun is_same_object :: "box \<Rightarrow> box \<Rightarrow> rat \<Rightarrow> bool" where
  "is_same_object (x1, y1, x2, y2) (x1b, y1b, x2b, y2b) threshold =
     (let cx1 = of_int (x1 + x2) / 2; cy1 = of_int (y1 + y2) / 2;
          cx2 = of_int (x1b + x2b) / 2; cy2 = of_int (y1b + y2b) / 2
      in \<bar>cx1 - cx2\<bar> < threshold \<and> \<bar>cy1 - cy2\<bar> < threshold)"

text \<open>
  The centre of a box as the specification words it, for comparison with the
  computation inside \<open>is_same_object\<close>.
\<close>

definition centre_x :: "box \<Rightarrow> rat" where
  "centre_x b = (case b of (x1, y1, x2, y2) \<Rightarrow> (of_int x1 + of_int x2) / 2)"

definition centre_y :: "box \<Rightarrow> rat" where
  "centre_y b = (case b of (x1, y1, x2, y2) \<Rightarrow> (of_int y1 + of_int y2) / 2)"

text \<open>
  The boxes on which the float arithmetic of \<^verbatim>\<open>is_same_object\<close> is exact: both
  coordinate sums within \<open>2^52\<close>, which holds of every pixel coordinate of a frame.
\<close>

definition exact_centres :: "box \<Rightarrow> bool" where
  "exact_centres b = (case b of (x1, y1, x2, y2) \<Rightarrow> \<bar>x1 + x2\<bar> \<le> 2 ^ 52 \<and> \<bar>y1 + y2\<bar> \<le> 2 ^ 52)"

subsection \<open>The tally\<close>

text \<open>
  Reading \<^verbatim>\<open>counts[k]\<close> of a \<^verbatim>\<open>defaultdict(int)\<close> gives 0 for a missing key;
  \<^verbatim>\<open>counts[k] += 1\<close> updates the entry in place or inserts \<open>(k, 1)\<close> at the end
  (the order \<^verbatim>\<open>counts.items()\<close> later iterates in).
\<close>

definition counts_get :: "counts_dict \<Rightarrow> string \<Rightarrow> int" where
  "counts_get c k = (case map_of c k of None \<Rightarrow> 0 | Some v \<Rightarrow> v)"

fun counts_incr :: "string \<Rightarrow> counts_dict \<Rightarrow> counts_dict" where
  "counts_incr k [] = [(k, 0 + 1)]"
| "counts_incr k ((k', v) # c) =
     (if k' = k then (k', v + 1) # c else (k', v) # counts_incr k c)"

subsection \<open>One detection (lines 43 to 60)\<close>

text \<open>The scan of \<^verbatim>\<open>seen_objects\<close> that sets \<^verbatim>\<open>already_seen\<close> (lines 52 to 56).\<close>

fun already_seen :: "(string \<times> box) list \<Rightarrow> string \<Rightarrow> box \<Rightarrow> bool" where
  "already_seen [] name new_box = False"
| "already_seen ((prev_cls, prev_box) # rest) name new_box =
     (if prev_cls = name \<and> is_same_object prev_box new_box 50 then True
      else already_seen rest name new_box)"

text \<open>Lines 52 to 60: the scan, then the count and the append when nothing matched.\<close>

definition confirm :: "session \<Rightarrow> string \<Rightarrow> box \<Rightarrow> session" where
  "confirm st name new_box =
     (if \<not> already_seen (seen_objects st) name new_box
      then \<lparr>counts = counts_incr name (counts st),
            seen_objects = seen_objects st @ [(name, new_box)]\<rparr>
      else st)"

text \<open>
  \<^verbatim>\<open>int(x)\<close> on a float truncates towards zero, raises ValueError on NaN and
  OverflowError on an infinity.
\<close>

fun py_int :: "pyfloat \<Rightarrow> error + int" where
  "py_int (Finite q) = Inr (if 0 \<le> q then \<lfloor>q\<rfloor> else \<lceil>q\<rceil>)"
| "py_int NaN = Inl ValueError"
| "py_int PosInf = Inl OverflowError"
| "py_int NegInf = Inl OverflowError"

text \<open>
  \<^verbatim>\<open>x1, y1, x2, y2 = map(int, box.xyxy[0])\<close>: the unpacking pulls four items from the
  lazy \<^verbatim>\<open>map\<close>, converting each as it is pulled (too few items: ValueError), then
  tries to pull a fifth, which must not exist (ValueError if it does, or the error of
  its own conversion).
\<close>

fun pull_ints :: "nat \<Rightarrow> pyfloat list \<Rightarrow> error + int list" where
  "pull_ints 0 xs = Inr []"
| "pull_ints (Suc n) [] = Inl ValueError"
| "pull_ints (Suc n) (x # xs) =
     (case py_int x of
        Inl e \<Rightarrow> Inl e
      | Inr i \<Rightarrow> (case pull_ints n xs of Inl e \<Rightarrow> Inl e | Inr js \<Rightarrow> Inr (i # js)))"

definition unpack_box :: "pyfloat list \<Rightarrow> error + box" where
  "unpack_box raw =
     (case pull_ints 4 raw of
        Inl e \<Rightarrow> Inl e
      | Inr vals \<Rightarrow>
          (case drop 4 raw of
             [] \<Rightarrow> Inr (vals ! 0, vals ! 1, vals ! 2, vals ! 3)
           | extra # _ \<Rightarrow> (case py_int extra of Inl e \<Rightarrow> Inl e | Inr _ \<Rightarrow> Inl ValueError)))"

text \<open>The body of the inner loop (lines 43 to 60), drawing left out.\<close>

definition process_box :: "session \<Rightarrow> detection \<Rightarrow> error + session" where
  "process_box st d =
     (if in_PRICE_LIST (cls_name d)
      then (case unpack_box (xyxy d) of
              Inl e \<Rightarrow> Inl e
            | Inr new_box \<Rightarrow> Inr (confirm st (cls_name d) new_box))
      else Inr st)"

subsection \<open>The loops\<close>

text \<open>\<^verbatim>\<open>for box in r.boxes\<close>: an exception leaves the loop at once.\<close>

fun process_boxes :: "session \<Rightarrow> detection list \<Rightarrow> error + session" where
  "process_boxes st [] = Inr st"
| "process_boxes st (d # ds) =
     (case process_box st d of Inl e \<Rightarrow> Inl e | Inr st' \<Rightarrow> process_boxes st' ds)"

text \<open>
  \<^verbatim>\<open>for r in results\<close>: the work done on one frame; this is the specification's
  \<open>update\<close>, whose argument is the detector's output for the frame.
\<close>

fun update :: "session \<Rightarrow> detection list list \<Rightarrow> error + session" where
  "update st [] = Inr st"
| "update st (r # rs) =
     (case process_boxes st r of Inl e \<Rightarrow> Inl e | Inr st' \<Rightarrow> update st' rs)"

text \<open>
  The \<^verbatim>\<open>while True\<close> loop over the frames that were read before the camera ended or
  \<^verbatim>\<open>q\<close> was pressed: a finite list of detector outputs.
\<close>

fun run_frames :: "session \<Rightarrow> detection list list list \<Rightarrow> error + session" where
  "run_frames st [] = Inr st"
| "run_frames st (f # fs) =
     (case update st f of Inl e \<Rightarrow> Inl e | Inr st' \<Rightarrow> run_frames st' fs)"

subsection \<open>The receipt (lines 82 to 91)\<close>

text \<open>
  A printed line carries the item, its count, the unit price and the line total; the
  loop also accumulates \<^verbatim>\<open>subtotal\<close>. \<^verbatim>\<open>PRICE_LIST[item]\<close> raises KeyError on a
  missing key.
\<close>

type_synonym receipt_line = "string \<times> int \<times> int \<times> int"

fun receipt_loop :: "counts_dict \<Rightarrow> receipt_line list \<Rightarrow> int \<Rightarrow> error + (receipt_line list \<times> int)" where
  "receipt_loop [] printed subtotal = Inr (printed, subtotal)"
| "receipt_loop ((item, cnt) # rest) printed subtotal =
     (case map_of PRICE_LIST item of
        None \<Rightarrow> Inl KeyError
      | Some price \<Rightarrow>
          (let line_total = price * cnt
           in receipt_loop rest (printed @ [(item, cnt, price, line_total)])
                (subtotal + line_total)))"

definition receipt :: "counts_dict \<Rightarrow> error + (receipt_line list \<times> int)" where
  "receipt c = receipt_loop c [] 0"

definition run_cashier :: "detection list list list \<Rightarrow> error + (receipt_line list \<times> int)" where
  "run_cashier frames =
     (case run_frames session_start frames of
        Inl e \<Rightarrow> Inl e
      | Inr st \<Rightarrow> receipt (counts st))"

subsection \<open>Predicates of the properties\<close>

text \<open>
  The number of stored objects of a label, the agreement of the tally with it, and the
  growth of one state into another.
\<close>

definition count_seen :: "string \<Rightarrow> (string \<times> box) list \<Rightarrow> int" where
  "count_seen label seen = int (length (filter (\<lambda>(c, b). c = label) seen))"

definition tally_ok :: "session \<Rightarrow> bool" where
  "tally_ok st = (\<forall>label. counts_get (counts st) label = count_seen label (seen_objects st))"

definition grows :: "session \<Rightarrow> session \<Rightarrow> bool" where
  "grows st st' = (prefix (seen_objects st) (seen_objects st') \<and>
      (\<forall>label. counts_get (counts st) label \<le> counts_get (counts st') label))"

text \<open>
  A detection as the specification's data model has it: a label and a box of four whole
  pixel coordinates, as the detector would deliver it.
\<close>

definition pixel_detection :: "string \<Rightarrow> box \<Rightarrow> detection" where
  "pixel_detection name b =
     (case b of (x1, y1, x2, y2) \<Rightarrow>
        \<lparr>cls_name = name,
         xyxy = [Finite (of_int x1), Finite (of_int y1), Finite (of_int x2), Finite (of_int y2)]\<rparr>)"

section \<open>Properties of the steps\<close>

subsection \<open>The scan, the tally and one confirmation\<close>

lemma already_seen_iff:
  "already_seen seen name b \<longleftrightarrow> (\<exists>(pc, pb) \<in> set seen. pc = name \<and> is_same_object pb b 50)"
  by (induction seen name b rule: already_seen.induct) auto

lemma is_same_object_self: "is_same_object b b 50"
  by (cases b) simp

lemma counts_get_incr:
  "counts_get (counts_incr k c) k' = (if k' = k then counts_get c k + 1 else counts_get c k')"
  by (induction k c rule: counts_incr.induct) (auto simp: counts_get_def)

lemma confirm_seen:
  "seen_objects (confirm st name b) =
     (if already_seen (seen_objects st) name b then seen_objects st
      else seen_objects st @ [(name, b)])"
  by (simp add: confirm_def)

lemma confirm_counts:
  "counts (confirm st name b) =
     (if already_seen (seen_objects st) name b then counts st
      else counts_incr name (counts st))"
  by (simp add: confirm_def)

lemma already_seen_confirm: "already_seen (seen_objects (confirm st name b)) name b"
  by (auto simp: confirm_seen already_seen_iff is_same_object_self)

lemma confirm_idem: "confirm (confirm st name b) name b = confirm st name b"
  using already_seen_confirm [of st name b] by (simp add: confirm_def [of "confirm st name b"])

lemma process_box_cases:
  "process_box st d = Inr st' \<Longrightarrow>
     st' = st \<or> (\<exists>b. unpack_box (xyxy d) = Inr b \<and> in_PRICE_LIST (cls_name d) \<and> st' = confirm st (cls_name d) b)"
  by (auto simp: process_box_def split: if_splits sum.splits)

subsection \<open>The nested loops visit the detections in one sequence\<close>

lemma process_boxes_append:
  "process_boxes st (xs @ ys) =
     (case process_boxes st xs of Inl e \<Rightarrow> Inl e | Inr st' \<Rightarrow> process_boxes st' ys)"
  by (induction xs arbitrary: st) (auto split: sum.splits)

lemma update_concat: "update st rs = process_boxes st (concat rs)"
  by (induction rs arbitrary: st) (auto simp: process_boxes_append split: sum.splits)

lemma run_frames_concat: "run_frames st fs = process_boxes st (concat (concat fs))"
  by (induction fs arbitrary: st) (auto simp: process_boxes_append update_concat split: sum.splits)

subsection \<open>The tally counts the stored objects\<close>

lemma tally_ok_confirm: "tally_ok st \<Longrightarrow> tally_ok (confirm st name b)"
  by (auto simp: tally_ok_def confirm_def counts_get_incr count_seen_def)

lemma tally_ok_process_box: "tally_ok st \<Longrightarrow> process_box st d = Inr st' \<Longrightarrow> tally_ok st'"
  by (auto dest!: process_box_cases simp: tally_ok_confirm)

lemma tally_ok_process_boxes: "tally_ok st \<Longrightarrow> process_boxes st ds = Inr st' \<Longrightarrow> tally_ok st'"
  by (induction ds arbitrary: st) (auto split: sum.splits dest: tally_ok_process_box)

lemma tally_ok_start: "tally_ok session_start"
  by (simp add: tally_ok_def session_start_def counts_get_def count_seen_def)

subsection \<open>The state only grows\<close>

lemma grows_refl: "grows st st"
  by (simp add: grows_def)

lemma grows_trans: "grows a b \<Longrightarrow> grows b c \<Longrightarrow> grows a c"
  unfolding grows_def by (meson order_trans prefix_order.trans)

lemma grows_confirm: "grows st (confirm st name b)"
  by (auto simp: grows_def confirm_def counts_get_incr)

lemma grows_process_box: "process_box st d = Inr st' \<Longrightarrow> grows st st'"
  by (auto dest!: process_box_cases simp: grows_confirm grows_refl)

lemma grows_process_boxes: "process_boxes st ds = Inr st' \<Longrightarrow> grows st st'"
proof (induction ds arbitrary: st)
  case Nil
  then show ?case by (simp add: grows_refl)
next
  case (Cons d ds)
  then show ?case
    by (auto split: sum.splits intro: grows_trans dest: grows_process_box)
qed

lemma prefix_nth: "prefix xs ys \<Longrightarrow> i < length xs \<Longrightarrow> ys ! i = xs ! i"
  by (auto simp: prefix_def nth_append)

lemma seen_kept_process_boxes:
  "process_boxes st ds = Inr st' \<Longrightarrow> x \<in> set (seen_objects st) \<Longrightarrow> x \<in> set (seen_objects st')"
  using grows_process_boxes [of st ds st'] by (auto simp: grows_def prefix_def)

subsection \<open>One detection inside a frame\<close>

lemma process_box_priced:
  "in_PRICE_LIST (cls_name d) \<Longrightarrow> unpack_box (xyxy d) = Inr b \<Longrightarrow>
     process_box st d = Inr (confirm st (cls_name d) b)"
  by (simp add: process_box_def)

lemma process_box_unpriced: "\<not> in_PRICE_LIST (cls_name d) \<Longrightarrow> process_box st d = Inr st"
  by (simp add: process_box_def)

lemma process_boxes_unpriced:
  "\<forall>d \<in> set ds. \<not> in_PRICE_LIST (cls_name d) \<Longrightarrow> process_boxes st ds = Inr st"
  by (induction ds) (auto simp: process_box_unpriced)

lemma process_boxes_replicate_fixed:
  "process_box st d = Inr st \<Longrightarrow> process_boxes st (replicate n d) = Inr st"
  by (induction n) auto

lemma concat_replicate_single: "concat (replicate n [x]) = replicate n x"
  by (induction n) auto

lemma update_split:
  "update st0 (rs1 @ (ds1 @ d # ds2) # rs2) =
     (case update st0 (rs1 @ [ds1]) of
        Inl e \<Rightarrow> Inl e
      | Inr st \<Rightarrow> (case process_box st d of Inl e \<Rightarrow> Inl e | Inr st' \<Rightarrow> update st' (ds2 # rs2)))"
  by (simp add: update_concat process_boxes_append split: sum.splits)

section \<open>The claims\<close>

subsection \<open>Counting a detection\<close>

text \<open>
  C1. Take any call of \<open>update\<close> and any detection \<open>d\<close> of the frame with a priced
  label and a box \<open>b\<close>; let \<open>st\<close> be the state the call has reached when it comes to
  \<open>d\<close>. The call continues from the state \<open>st'\<close> that \<open>d\<close> leaves. If some stored
  object has the same label and passes the proximity test against \<open>b\<close>, then \<open>st'\<close> is
  \<open>st\<close>: the tally is unchanged. If no stored object of that label passes the test,
  then the tally of the label is one higher, the tally of every other label is the same,
  and the stored sequence has one new entry at its end, the label with \<open>b\<close>.
\<close>

theorem detection_merged_or_counted:
  assumes reach: "update st0 (rs1 @ [ds1]) = Inr st"
    and priced: "in_PRICE_LIST (cls_name d)"
    and box: "unpack_box (xyxy d) = Inr b"
  shows "\<exists>st'. process_box st d = Inr st' \<and>
           update st0 (rs1 @ (ds1 @ d # ds2) # rs2) = update st' (ds2 # rs2) \<and>
           ((\<exists>(pc, pb) \<in> set (seen_objects st). pc = cls_name d \<and> is_same_object pb b 50) \<longrightarrow>
              st' = st) \<and>
           (\<not> (\<exists>(pc, pb) \<in> set (seen_objects st). pc = cls_name d \<and> is_same_object pb b 50) \<longrightarrow>
              seen_objects st' = seen_objects st @ [(cls_name d, b)] \<and>
              counts_get (counts st') (cls_name d) = counts_get (counts st) (cls_name d) + 1 \<and>
              (\<forall>label. label \<noteq> cls_name d \<longrightarrow>
                 counts_get (counts st') label = counts_get (counts st) label))"
proof -
  let ?st' = "confirm st (cls_name d) b"
  have step: "process_box st d = Inr ?st'"
    using priced box by (simp add: process_box_def)
  have whole: "update st0 (rs1 @ (ds1 @ d # ds2) # rs2) = update ?st' (ds2 # rs2)"
    using reach step by (simp add: update_split)
  have old: "(\<exists>(pc, pb) \<in> set (seen_objects st). pc = cls_name d \<and> is_same_object pb b 50) \<Longrightarrow> ?st' = st"
    by (simp add: confirm_def already_seen_iff)
  have new: "\<not> (\<exists>(pc, pb) \<in> set (seen_objects st). pc = cls_name d \<and> is_same_object pb b 50) \<Longrightarrow>
      seen_objects ?st' = seen_objects st @ [(cls_name d, b)] \<and>
      counts_get (counts ?st') (cls_name d) = counts_get (counts st) (cls_name d) + 1 \<and>
      (\<forall>label. label \<noteq> cls_name d \<longrightarrow> counts_get (counts ?st') label = counts_get (counts st) label)"
    by (simp add: confirm_def already_seen_iff counts_get_incr)
  from step whole old new show ?thesis by blast
qed

text \<open>
  The theorem at the specification's scenario: after an apple at (10,10,50,50), an apple
  at (12,11,52,51) is merged and an apple at (200,200,240,240) is counted.
\<close>

theorem detection_merged_or_counted_witness:
  "update session_start ([] @ [[pixel_detection ''apple'' (10, 10, 50, 50)]]) =
     Inr \<lparr>counts = [(''apple'', 1)], seen_objects = [(''apple'', 10, 10, 50, 50)]\<rparr> \<and>
   in_PRICE_LIST ''apple'' \<and>
   process_box \<lparr>counts = [(''apple'', 1)], seen_objects = [(''apple'', 10, 10, 50, 50)]\<rparr>
       (pixel_detection ''apple'' (12, 11, 52, 51)) =
     Inr \<lparr>counts = [(''apple'', 1)], seen_objects = [(''apple'', 10, 10, 50, 50)]\<rparr> \<and>
   (\<exists>st'. process_box \<lparr>counts = [(''apple'', 1)], seen_objects = [(''apple'', 10, 10, 50, 50)]\<rparr>
       (pixel_detection ''apple'' (200, 200, 240, 240)) = Inr st' \<and>
      seen_objects st' = [(''apple'', 10, 10, 50, 50), (''apple'', 200, 200, 240, 240)] \<and>
      counts_get (counts st') ''apple'' = 2)"
proof -
  let ?st = "\<lparr>counts = [(''apple'', 1)], seen_objects = [(''apple'', 10, 10, 50, 50)]\<rparr>"
  let ?near = "pixel_detection ''apple'' (12, 11, 52, 51)"
  let ?far = "pixel_detection ''apple'' (200, 200, 240, 240)"
  have reach: "update session_start ([] @ [[pixel_detection ''apple'' (10, 10, 50, 50)]]) = Inr ?st"
    by code_simp
  have priced: "in_PRICE_LIST ''apple''"
    by code_simp
  have priced_near: "in_PRICE_LIST (cls_name ?near)" and priced_far: "in_PRICE_LIST (cls_name ?far)"
    by code_simp+
  have box_near: "unpack_box (xyxy ?near) = Inr (12, 11, 52, 51)"
    by code_simp
  have box_far: "unpack_box (xyxy ?far) = Inr (200, 200, 240, 240)"
    by code_simp
  have name: "cls_name ?near = ''apple''" "cls_name ?far = ''apple''"
    by (simp_all add: pixel_detection_def)
  have matched: "\<exists>(pc, pb) \<in> set (seen_objects ?st).
      pc = cls_name ?near \<and> is_same_object pb (12, 11, 52, 51) 50"
    by (simp add: name)
  have unmatched: "\<not> (\<exists>(pc, pb) \<in> set (seen_objects ?st).
      pc = cls_name ?far \<and> is_same_object pb (200, 200, 240, 240) 50)"
    by (simp add: name)
  have merged: "process_box ?st ?near = Inr ?st"
    using detection_merged_or_counted [OF reach priced_near box_near, of "[]" "[]"] matched
    by auto
  have counted: "\<exists>st'. process_box ?st ?far = Inr st' \<and>
      seen_objects st' = [(''apple'', 10, 10, 50, 50), (''apple'', 200, 200, 240, 240)] \<and>
      counts_get (counts st') ''apple'' = 2"
    using detection_merged_or_counted [OF reach priced_far box_far, of "[]" "[]"] unmatched
    by (auto simp: name counts_get_def)
  from reach priced merged counted show ?thesis by blast
qed

subsection \<open>The tally and the stored objects\<close>

text \<open>
  C2. After each call of a sequence of \<open>update\<close> calls that starts from the empty
  session state (after the first \<open>k\<close> frames, for every \<open>k\<close>), the tally of every label
  is the number of stored objects that carry the label.
\<close>

theorem tally_equals_seen_count:
  "run_frames session_start (take k frames) = Inr st \<Longrightarrow>
     counts_get (counts st) label = count_seen label (seen_objects st)"
  using tally_ok_process_boxes [OF tally_ok_start, of "concat (concat (take k frames))" st]
  by (simp add: run_frames_concat tally_ok_def)

theorem tally_equals_seen_count_witness:
  "run_frames session_start
     (take 2 [[[pixel_detection ''apple'' (10, 10, 50, 50)]],
              [[pixel_detection ''cake'' (12, 11, 52, 51), pixel_detection ''apple'' (200, 200, 240, 240)]],
              [[pixel_detection ''cake'' (300, 300, 340, 340)]]]) =
     Inr \<lparr>counts = [(''apple'', 2), (''cake'', 1)],
          seen_objects = [(''apple'', 10, 10, 50, 50), (''cake'', 12, 11, 52, 51),
                          (''apple'', 200, 200, 240, 240)]\<rparr> \<and>
   counts_get [(''apple'', 2), (''cake'', 1)] ''apple'' =
     count_seen ''apple'' [(''apple'', 10, 10, 50, 50), (''cake'', 12, 11, 52, 51),
                          (''apple'', 200, 200, 240, 240)]"
proof -
  have run: "run_frames session_start
     (take 2 [[[pixel_detection ''apple'' (10, 10, 50, 50)]],
              [[pixel_detection ''cake'' (12, 11, 52, 51), pixel_detection ''apple'' (200, 200, 240, 240)]],
              [[pixel_detection ''cake'' (300, 300, 340, 340)]]]) =
     Inr \<lparr>counts = [(''apple'', 2), (''cake'', 1)],
          seen_objects = [(''apple'', 10, 10, 50, 50), (''cake'', 12, 11, 52, 51),
                          (''apple'', 200, 200, 240, 240)]\<rparr>"
    by code_simp
  from tally_equals_seen_count [OF run, of "''apple''"] run show ?thesis
    by simp
qed

subsection \<open>The proximity test\<close>

text \<open>
  C3. Two boxes (with coordinate sums within the bound of exact float arithmetic) are
  the same physical object exactly when the absolute difference of their centre x
  coordinates and the absolute difference of their centre y coordinates are both
  strictly below the threshold. So boxes whose centres differ by exactly the threshold
  in both axes are distinct, and boxes whose centres differ by the threshold minus one
  in both axes are the same. With the default threshold of 50 the counter counts a
  same-label box at distance 50 from the only stored one as a second object and merges
  a same-label box at distance 49.
\<close>

theorem same_object_iff_centres_close:
  assumes "exact_centres b1" and "exact_centres b2"
  shows
  "(is_same_object b1 b2 t \<longleftrightarrow>
      \<bar>centre_x b1 - centre_x b2\<bar> < t \<and> \<bar>centre_y b1 - centre_y b2\<bar> < t) \<and>
   (\<bar>centre_x b1 - centre_x b2\<bar> = t \<and> \<bar>centre_y b1 - centre_y b2\<bar> = t \<longrightarrow>
      \<not> is_same_object b1 b2 t) \<and>
   (\<bar>centre_x b1 - centre_x b2\<bar> = t - 1 \<and> \<bar>centre_y b1 - centre_y b2\<bar> = t - 1 \<longrightarrow>
      is_same_object b1 b2 t) \<and>
   (\<bar>centre_x b1 - centre_x b2\<bar> = 50 \<and> \<bar>centre_y b1 - centre_y b2\<bar> = 50 \<longrightarrow>
      confirm \<lparr>counts = [(name, 1)], seen_objects = [(name, b1)]\<rparr> name b2 =
        \<lparr>counts = [(name, 2)], seen_objects = [(name, b1), (name, b2)]\<rparr>) \<and>
   (\<bar>centre_x b1 - centre_x b2\<bar> = 49 \<and> \<bar>centre_y b1 - centre_y b2\<bar> = 49 \<longrightarrow>
      confirm \<lparr>counts = [(name, 1)], seen_objects = [(name, b1)]\<rparr> name b2 =
        \<lparr>counts = [(name, 1)], seen_objects = [(name, b1)]\<rparr>)"
proof -
  have iff: "is_same_object b1 b2 u \<longleftrightarrow>
      \<bar>centre_x b1 - centre_x b2\<bar> < u \<and> \<bar>centre_y b1 - centre_y b2\<bar> < u" for u
    by (cases b1; cases b2) (simp add: centre_x_def centre_y_def)
  show ?thesis
    by (simp add: iff confirm_def)
qed

theorem same_object_iff_centres_close_witness:
  "exact_centres (0, 0, 20, 20) \<and> exact_centres (50, 50, 70, 70) \<and>
   exact_centres (49, 49, 69, 69) \<and>
   \<bar>centre_x (0, 0, 20, 20) - centre_x (50, 50, 70, 70)\<bar> = 50 \<and>
   \<bar>centre_y (0, 0, 20, 20) - centre_y (50, 50, 70, 70)\<bar> = 50 \<and>
   \<not> is_same_object (0, 0, 20, 20) (50, 50, 70, 70) 50 \<and>
   confirm \<lparr>counts = [(''cup'', 1)], seen_objects = [(''cup'', 0, 0, 20, 20)]\<rparr> ''cup'' (50, 50, 70, 70) =
     \<lparr>counts = [(''cup'', 2)], seen_objects = [(''cup'', 0, 0, 20, 20), (''cup'', 50, 50, 70, 70)]\<rparr> \<and>
   \<bar>centre_x (0, 0, 20, 20) - centre_x (49, 49, 69, 69)\<bar> = 50 - 1 \<and>
   \<bar>centre_y (0, 0, 20, 20) - centre_y (49, 49, 69, 69)\<bar> = 50 - 1 \<and>
   is_same_object (0, 0, 20, 20) (49, 49, 69, 69) 50 \<and>
   confirm \<lparr>counts = [(''cup'', 1)], seen_objects = [(''cup'', 0, 0, 20, 20)]\<rparr> ''cup'' (49, 49, 69, 69) =
     \<lparr>counts = [(''cup'', 1)], seen_objects = [(''cup'', 0, 0, 20, 20)]\<rparr>"
proof -
  have small: "exact_centres (0, 0, 20, 20)" "exact_centres (50, 50, 70, 70)"
    "exact_centres (49, 49, 69, 69)"
    by (simp_all add: exact_centres_def)
  have at: "\<bar>centre_x (0, 0, 20, 20) - centre_x (50, 50, 70, 70)\<bar> = 50"
    "\<bar>centre_y (0, 0, 20, 20) - centre_y (50, 50, 70, 70)\<bar> = 50"
    by (simp_all add: centre_x_def centre_y_def)
  have below: "\<bar>centre_x (0, 0, 20, 20) - centre_x (49, 49, 69, 69)\<bar> = 50 - 1"
    "\<bar>centre_y (0, 0, 20, 20) - centre_y (49, 49, 69, 69)\<bar> = 50 - 1"
    by (simp_all add: centre_x_def centre_y_def)
  have below': "\<bar>centre_x (0, 0, 20, 20) - centre_x (49, 49, 69, 69)\<bar> = 49"
    "\<bar>centre_y (0, 0, 20, 20) - centre_y (49, 49, 69, 69)\<bar> = 49"
    using below by simp_all
  note far = same_object_iff_centres_close [OF small(1) small(2), of 50 "''cup''"]
  note near = same_object_iff_centres_close [OF small(1) small(3), of 50 "''cup''"]
  have 1: "\<not> is_same_object (0, 0, 20, 20) (50, 50, 70, 70) 50"
    using far at by blast
  have 2: "confirm \<lparr>counts = [(''cup'', 1)], seen_objects = [(''cup'', 0, 0, 20, 20)]\<rparr> ''cup'' (50, 50, 70, 70) =
     \<lparr>counts = [(''cup'', 2)], seen_objects = [(''cup'', 0, 0, 20, 20), (''cup'', 50, 50, 70, 70)]\<rparr>"
    using far at by blast
  have 3: "is_same_object (0, 0, 20, 20) (49, 49, 69, 69) 50"
    using near below by blast
  have 4: "confirm \<lparr>counts = [(''cup'', 1)], seen_objects = [(''cup'', 0, 0, 20, 20)]\<rparr> ''cup'' (49, 49, 69, 69) =
     \<lparr>counts = [(''cup'', 1)], seen_objects = [(''cup'', 0, 0, 20, 20)]\<rparr>"
    using near below' by blast
  from small at below 1 2 3 4 show ?thesis by blast
qed

subsection \<open>Growth\<close>

text \<open>
  C4. Across any sequence of \<open>update\<close> calls of a session, from any state, the stored
  sequence only grows: the old sequence is a prefix of the new one, so every stored
  object is still there, unchanged and at its position, and no tally has decreased.
\<close>

theorem seen_objects_only_grow:
  assumes "run_frames st frames = Inr st'"
  shows "prefix (seen_objects st) (seen_objects st') \<and>
         (\<forall>i < length (seen_objects st). seen_objects st' ! i = seen_objects st ! i) \<and>
         (\<forall>label. counts_get (counts st) label \<le> counts_get (counts st') label)"
proof -
  have "grows st st'"
    using assms by (simp add: run_frames_concat grows_process_boxes)
  then show ?thesis
    by (auto simp: grows_def prefix_nth)
qed

theorem seen_objects_only_grow_witness:
  "run_frames \<lparr>counts = [(''apple'', 1)], seen_objects = [(''apple'', 10, 10, 50, 50)]\<rparr>
     [[[pixel_detection ''apple'' (12, 11, 52, 51)]],
      [[pixel_detection ''pizza'' (12, 11, 52, 51), pixel_detection ''apple'' (200, 200, 240, 240)]]] =
     Inr \<lparr>counts = [(''apple'', 2), (''pizza'', 1)],
          seen_objects = [(''apple'', 10, 10, 50, 50), (''pizza'', 12, 11, 52, 51),
                          (''apple'', 200, 200, 240, 240)]\<rparr> \<and>
   prefix [(''apple'', 10, 10, 50, 50)]
     [(''apple'', 10, 10, 50, 50), (''pizza'', 12, 11, 52, 51), (''apple'', 200, 200, 240, 240)] \<and>
   (\<forall>label. counts_get [(''apple'', 1)] label \<le> counts_get [(''apple'', 2), (''pizza'', 1)] label)"
proof -
  have run: "run_frames \<lparr>counts = [(''apple'', 1)], seen_objects = [(''apple'', 10, 10, 50, 50)]\<rparr>
     [[[pixel_detection ''apple'' (12, 11, 52, 51)]],
      [[pixel_detection ''pizza'' (12, 11, 52, 51), pixel_detection ''apple'' (200, 200, 240, 240)]]] =
     Inr \<lparr>counts = [(''apple'', 2), (''pizza'', 1)],
          seen_objects = [(''apple'', 10, 10, 50, 50), (''pizza'', 12, 11, 52, 51),
                          (''apple'', 200, 200, 240, 240)]\<rparr>"
    by code_simp
  from seen_objects_only_grow [OF run] run show ?thesis
    by simp
qed

subsection \<open>Seeing the same detection again\<close>

text \<open>
  C5. For every \<open>n\<close> of at least 1, every priced label and every box: when no stored
  object of the label is near the box, feeding the same detection \<open>n\<close> times in a row
  (in \<open>n\<close> frames, or \<open>n\<close> times in one frame) raises the tally of the label by exactly
  1 and stores the object once.
\<close>

theorem repeated_detection_counts_once:
  assumes priced: "in_PRICE_LIST (cls_name d)"
    and box: "unpack_box (xyxy d) = Inr b"
    and fresh: "\<not> already_seen (seen_objects st) (cls_name d) b"
    and n: "1 \<le> n"
  shows "\<exists>st'. run_frames st (replicate n [[d]]) = Inr st' \<and>
           update st [replicate n d] = Inr st' \<and>
           counts_get (counts st') (cls_name d) = counts_get (counts st) (cls_name d) + 1 \<and>
           seen_objects st' = seen_objects st @ [(cls_name d, b)]"
proof -
  let ?st' = "confirm st (cls_name d) b"
  obtain m where m: "n = Suc m"
    using n by (cases n) auto
  have first: "process_box st d = Inr ?st'"
    using priced box by (rule process_box_priced)
  have again: "process_box ?st' d = Inr ?st'"
    using priced box by (simp add: process_box_priced confirm_idem)
  have batch: "process_boxes st (replicate n d) = Inr ?st'"
    using first process_boxes_replicate_fixed [OF again, of m] by (simp add: m)
  have frames: "run_frames st (replicate n [[d]]) = Inr ?st'"
    using batch by (simp add: run_frames_concat concat_replicate_single)
  have one: "update st [replicate n d] = Inr ?st'"
    using batch by (simp add: update_concat)
  have tally: "counts_get (counts ?st') (cls_name d) = counts_get (counts st) (cls_name d) + 1"
    using fresh by (simp add: confirm_counts counts_get_incr)
  have seen: "seen_objects ?st' = seen_objects st @ [(cls_name d, b)]"
    using fresh by (simp add: confirm_seen)
  from frames one tally seen show ?thesis by blast
qed

theorem repeated_detection_counts_once_witness:
  "in_PRICE_LIST ''donut'' \<and>
   unpack_box (xyxy (pixel_detection ''donut'' (30, 40, 90, 100))) = Inr (30, 40, 90, 100) \<and>
   \<not> already_seen [(''donut'', 100, 40, 160, 100), (''cup'', 30, 40, 90, 100)] ''donut'' (30, 40, 90, 100) \<and>
   (1::nat) \<le> 3 \<and>
   (\<exists>st'. run_frames
        \<lparr>counts = [(''donut'', 1), (''cup'', 1)],
         seen_objects = [(''donut'', 100, 40, 160, 100), (''cup'', 30, 40, 90, 100)]\<rparr>
        (replicate 3 [[pixel_detection ''donut'' (30, 40, 90, 100)]]) = Inr st' \<and>
      counts_get (counts st') ''donut'' = 2)"
proof -
  let ?d = "pixel_detection ''donut'' (30, 40, 90, 100)"
  let ?st = "\<lparr>counts = [(''donut'', 1), (''cup'', 1)],
         seen_objects = [(''donut'', 100, 40, 160, 100), (''cup'', 30, 40, 90, 100)]\<rparr>"
  have name: "cls_name ?d = ''donut''"
    by (simp add: pixel_detection_def)
  have priced: "in_PRICE_LIST ''donut''"
    by code_simp
  have box: "unpack_box (xyxy ?d) = Inr (30, 40, 90, 100)"
    by code_simp
  have fresh: "\<not> already_seen [(''donut'', 100, 40, 160, 100), (''cup'', 30, 40, 90, 100)] ''donut'' (30, 40, 90, 100)"
    by simp
  have n: "(1::nat) \<le> 3"
    by simp
  have "\<exists>st'. run_frames ?st (replicate 3 [[?d]]) = Inr st' \<and> counts_get (counts st') ''donut'' = 2"
    using repeated_detection_counts_once [of ?d "(30, 40, 90, 100)" ?st 3] priced box fresh n
    by (auto simp: name counts_get_def)
  with priced box fresh n show ?thesis by blast
qed

subsection \<open>Labels without a price\<close>

text \<open>
  C6. In every session state, a detection whose label is not in the price list leaves
  the tally and the stored sequence exactly as they were, and so does a frame made of
  such detections only; a frame without detections changes nothing. The label
  \<open>keyboard\<close> has no price.
\<close>

theorem unpriced_label_ignored:
  "(\<not> in_PRICE_LIST (cls_name d) \<longrightarrow> process_box st d = Inr st) \<and>
   ((\<forall>d \<in> set (concat results). \<not> in_PRICE_LIST (cls_name d)) \<longrightarrow> update st results = Inr st) \<and>
   update st [] = Inr st \<and> update st [[]] = Inr st \<and>
   \<not> in_PRICE_LIST ''keyboard''"
  by (simp add: process_box_unpriced process_boxes_unpriced update_concat
      in_PRICE_LIST_def PRICE_LIST_def)

theorem unpriced_label_ignored_witness:
  "\<not> in_PRICE_LIST (cls_name (pixel_detection ''keyboard'' (10, 10, 50, 50))) \<and>
   process_box \<lparr>counts = [(''apple'', 1)], seen_objects = [(''apple'', 10, 10, 50, 50)]\<rparr>
       (pixel_detection ''keyboard'' (10, 10, 50, 50)) =
     Inr \<lparr>counts = [(''apple'', 1)], seen_objects = [(''apple'', 10, 10, 50, 50)]\<rparr> \<and>
   update \<lparr>counts = [(''apple'', 1)], seen_objects = [(''apple'', 10, 10, 50, 50)]\<rparr>
       [[pixel_detection ''keyboard'' (10, 10, 50, 50)], [pixel_detection ''mouse'' (300, 10, 350, 50)]] =
     Inr \<lparr>counts = [(''apple'', 1)], seen_objects = [(''apple'', 10, 10, 50, 50)]\<rparr>"
proof -
  let ?st = "\<lparr>counts = [(''apple'', 1)], seen_objects = [(''apple'', 10, 10, 50, 50)]\<rparr>"
  let ?k = "pixel_detection ''keyboard'' (10, 10, 50, 50)"
  let ?m = "pixel_detection ''mouse'' (300, 10, 350, 50)"
  have k: "\<not> in_PRICE_LIST (cls_name ?k)"
    by code_simp
  have m: "\<not> in_PRICE_LIST (cls_name ?m)"
    by code_simp
  have all: "\<forall>d \<in> set (concat [[?k], [?m]]). \<not> in_PRICE_LIST (cls_name d)"
    using k m by simp
  have one: "process_box ?st ?k = Inr ?st"
    using unpriced_label_ignored [of ?k ?st "[]"] k by blast
  have frame: "update ?st [[?k], [?m]] = Inr ?st"
    using unpriced_label_ignored [of ?k ?st "[[?k], [?m]]"] all by blast
  from k one frame show ?thesis by blast
qed

subsection \<open>Malformed detections\<close>

lemma pull_ints_length: "pull_ints n raw = Inr vals \<Longrightarrow> length vals = n"
  by (induction n raw arbitrary: vals rule: pull_ints.induct) (auto split: sum.splits)

lemma pull_ints_NaN: "NaN \<in> set (take n raw) \<Longrightarrow> \<exists>e. pull_ints n raw = Inl e"
  by (induction n raw rule: pull_ints.induct) (auto split: sum.splits)

lemma pull_ints_short: "length raw < n \<Longrightarrow> \<exists>e. pull_ints n raw = Inl e"
  by (induction n raw rule: pull_ints.induct) (auto split: sum.splits)

lemma pull_ints_error:
  "pull_ints n raw = Inl e \<Longrightarrow> PosInf \<notin> set raw \<Longrightarrow> NegInf \<notin> set raw \<Longrightarrow> e = ValueError"
proof (induction n raw rule: pull_ints.induct)
  case (3 n x xs)
  then show ?case by (cases x) (auto split: sum.splits)
qed auto

lemma unpack_box_malformed:
  assumes "length raw < 4 \<or> NaN \<in> set (take 4 raw)"
  shows "\<exists>e. unpack_box raw = Inl e"
proof -
  obtain e where "pull_ints 4 raw = Inl e"
    using assms pull_ints_NaN [of 4 raw] pull_ints_short [of raw 4] by blast
  then show ?thesis by (simp add: unpack_box_def)
qed

lemma unpack_box_malformed_ValueError:
  assumes "length raw < 4 \<or> NaN \<in> set (take 4 raw)"
    and "PosInf \<notin> set raw" "NegInf \<notin> set raw"
  shows "unpack_box raw = Inl ValueError"
proof -
  obtain e where e: "pull_ints 4 raw = Inl e"
    using assms(1) pull_ints_NaN [of 4 raw] pull_ints_short [of raw 4] by blast
  then have "e = ValueError"
    using assms(2,3) by (rule pull_ints_error)
  with e show ?thesis by (simp add: unpack_box_def)
qed

text \<open>
  C7, as the code has it. Take any call of \<open>update\<close> and any detection \<open>d\<close> of the
  frame, wherever it stands; let \<open>st\<close> be the state the call has reached when it comes
  to \<open>d\<close>. If the label of \<open>d\<close> is outside the price list, \<open>d\<close> is skipped without
  an error, whatever its coordinates are: the state is unchanged and the call goes on
  from \<open>st\<close> with the detections that follow. If the label is priced and one of the four
  coordinates is missing or NaN, \<open>d\<close> is not skipped: the conversion of line 48 raises,
  the whole call fails with that error whatever follows \<open>d\<close> in the frame, and the error
  is a ValueError when no coordinate is infinite.
\<close>

theorem malformed_detection_policy:
  assumes reach: "update st0 (rs1 @ [ds1]) = Inr st"
  shows
  "(\<not> in_PRICE_LIST (cls_name d) \<longrightarrow>
      process_box st d = Inr st \<and>
      update st0 (rs1 @ (ds1 @ d # ds2) # rs2) = update st (ds2 # rs2) \<and>
      update st0 (rs1 @ (ds1 @ d # ds2) # rs2) = update st0 (rs1 @ (ds1 @ ds2) # rs2)) \<and>
   (in_PRICE_LIST (cls_name d) \<and> (length (xyxy d) < 4 \<or> NaN \<in> set (take 4 (xyxy d))) \<longrightarrow>
      (\<exists>e. process_box st d = Inl e \<and>
           update st0 (rs1 @ (ds1 @ d # ds2) # rs2) = Inl e \<and>
           run_frames st0 ((rs1 @ (ds1 @ d # ds2) # rs2) # later) = Inl e \<and>
           (PosInf \<notin> set (xyxy d) \<and> NegInf \<notin> set (xyxy d) \<longrightarrow> e = ValueError)))"
proof -
  have before: "process_boxes st0 (concat rs1 @ ds1) = Inr st"
    using reach by (simp add: update_concat)
  have skip: "process_box st d = Inr st \<and>
      update st0 (rs1 @ (ds1 @ d # ds2) # rs2) = update st (ds2 # rs2) \<and>
      update st0 (rs1 @ (ds1 @ d # ds2) # rs2) = update st0 (rs1 @ (ds1 @ ds2) # rs2)"
    if u: "\<not> in_PRICE_LIST (cls_name d)"
  proof -
    have one: "process_box st d = Inr st"
      using u by (rule process_box_unpriced)
    have with_d: "update st0 (rs1 @ (ds1 @ d # ds2) # rs2) = update st (ds2 # rs2)"
      using reach one by (simp add: update_split)
    have "process_boxes st0 ((concat rs1 @ ds1) @ ds2 @ concat rs2) =
        process_boxes st (ds2 @ concat rs2)"
      using before by (simp only: process_boxes_append [of st0 "concat rs1 @ ds1"] sum.case)
    then have without_d: "update st0 (rs1 @ (ds1 @ ds2) # rs2) = update st (ds2 # rs2)"
      by (simp add: update_concat)
    from one with_d without_d show ?thesis by simp
  qed
  have raise: "\<exists>e. process_box st d = Inl e \<and>
           update st0 (rs1 @ (ds1 @ d # ds2) # rs2) = Inl e \<and>
           run_frames st0 ((rs1 @ (ds1 @ d # ds2) # rs2) # later) = Inl e \<and>
           (PosInf \<notin> set (xyxy d) \<and> NegInf \<notin> set (xyxy d) \<longrightarrow> e = ValueError)"
    if p: "in_PRICE_LIST (cls_name d)" and m: "length (xyxy d) < 4 \<or> NaN \<in> set (take 4 (xyxy d))"
  proof -
    obtain e where e: "unpack_box (xyxy d) = Inl e"
      using unpack_box_malformed [OF m] by blast
    have kind: "PosInf \<notin> set (xyxy d) \<and> NegInf \<notin> set (xyxy d) \<longrightarrow> e = ValueError"
      using unpack_box_malformed_ValueError [OF m] e by auto
    have one: "process_box st d = Inl e"
      using p e by (simp add: process_box_def)
    have call: "update st0 (rs1 @ (ds1 @ d # ds2) # rs2) = Inl e"
      using reach one by (simp add: update_split)
    have run: "run_frames st0 ((rs1 @ (ds1 @ d # ds2) # rs2) # later) = Inl e"
      using call by simp
    from one call run kind show ?thesis by blast
  qed
  from skip raise show ?thesis by blast
qed

text \<open>
  The theorem inside a frame of four detections: after a banana, a keyboard with a NaN
  coordinate is skipped and the cup and the pizza behind it are counted; in its place a
  cake with a NaN coordinate makes the call fail, with the cup and the pizza behind it.
\<close>

theorem malformed_detection_policy_witness:
  "update session_start ([] @ [[pixel_detection ''banana'' (0, 0, 30, 30)]]) =
     Inr \<lparr>counts = [(''banana'', 1)], seen_objects = [(''banana'', 0, 0, 30, 30)]\<rparr> \<and>
   \<not> in_PRICE_LIST (cls_name \<lparr>cls_name = ''keyboard'', xyxy = [Finite 10, NaN, Finite 50]\<rparr>) \<and>
   update session_start
     ([] @ ([pixel_detection ''banana'' (0, 0, 30, 30)] @
            \<lparr>cls_name = ''keyboard'', xyxy = [Finite 10, NaN, Finite 50]\<rparr> #
            [pixel_detection ''cup'' (200, 0, 230, 30)]) # [[pixel_detection ''pizza'' (0, 200, 30, 230)]]) =
     Inr \<lparr>counts = [(''banana'', 1), (''cup'', 1), (''pizza'', 1)],
          seen_objects = [(''banana'', 0, 0, 30, 30), (''cup'', 200, 0, 230, 30),
                          (''pizza'', 0, 200, 30, 230)]\<rparr> \<and>
   in_PRICE_LIST (cls_name \<lparr>cls_name = ''cake'', xyxy = [Finite 10, Finite 10, NaN, Finite 50]\<rparr>) \<and>
   NaN \<in> set (take 4 (xyxy \<lparr>cls_name = ''cake'', xyxy = [Finite 10, Finite 10, NaN, Finite 50]\<rparr>)) \<and>
   update session_start
     ([] @ ([pixel_detection ''banana'' (0, 0, 30, 30)] @
            \<lparr>cls_name = ''cake'', xyxy = [Finite 10, Finite 10, NaN, Finite 50]\<rparr> #
            [pixel_detection ''cup'' (200, 0, 230, 30)]) # [[pixel_detection ''pizza'' (0, 200, 30, 230)]]) =
     Inl ValueError"
proof -
  let ?b = "pixel_detection ''banana'' (0, 0, 30, 30)"
  let ?k = "\<lparr>cls_name = ''keyboard'', xyxy = [Finite 10, NaN, Finite 50]\<rparr>"
  let ?c = "\<lparr>cls_name = ''cake'', xyxy = [Finite 10, Finite 10, NaN, Finite 50]\<rparr>"
  let ?cup = "pixel_detection ''cup'' (200, 0, 230, 30)"
  let ?p = "pixel_detection ''pizza'' (0, 200, 30, 230)"
  let ?st = "\<lparr>counts = [(''banana'', 1)], seen_objects = [(''banana'', 0, 0, 30, 30)]\<rparr>"
  have reach: "update session_start ([] @ [[?b]]) = Inr ?st"
    by code_simp
  have k: "\<not> in_PRICE_LIST (cls_name ?k)"
    by code_simp
  have c: "in_PRICE_LIST (cls_name ?c)"
    by code_simp
  have nan: "NaN \<in> set (take 4 (xyxy ?c))"
    by simp
  have fin: "PosInf \<notin> set (xyxy ?c) \<and> NegInf \<notin> set (xyxy ?c)"
    by simp
  have rest: "update ?st ([?cup] # [[?p]]) =
     Inr \<lparr>counts = [(''banana'', 1), (''cup'', 1), (''pizza'', 1)],
          seen_objects = [(''banana'', 0, 0, 30, 30), (''cup'', 200, 0, 230, 30),
                          (''pizza'', 0, 200, 30, 230)]\<rparr>"
    by code_simp
  have "update session_start ([] @ ([?b] @ ?k # [?cup]) # [[?p]]) = update ?st ([?cup] # [[?p]])"
    using malformed_detection_policy [OF reach, of ?k "[?cup]" "[[?p]]"] k by blast
  with rest have skipped: "update session_start ([] @ ([?b] @ ?k # [?cup]) # [[?p]]) =
     Inr \<lparr>counts = [(''banana'', 1), (''cup'', 1), (''pizza'', 1)],
          seen_objects = [(''banana'', 0, 0, 30, 30), (''cup'', 200, 0, 230, 30),
                          (''pizza'', 0, 200, 30, 230)]\<rparr>"
    by simp
  have raised: "update session_start ([] @ ([?b] @ ?c # [?cup]) # [[?p]]) = Inl ValueError"
    using malformed_detection_policy [OF reach, of ?c "[?cup]" "[[?p]]"] c nan fin by blast
  from reach k skipped c nan raised show ?thesis by blast
qed

text \<open>
  C7 as it is stated fails: an apple whose second coordinate is NaN, and an apple with
  three coordinates only, are not skipped silently; \<open>update\<close> raises ValueError.
\<close>

theorem malformed_box_not_skipped:
  "update session_start
     [[\<lparr>cls_name = ''apple'', xyxy = [Finite 10, NaN, Finite 50, Finite 50]\<rparr>]] = Inl ValueError \<and>
   update session_start
     [[\<lparr>cls_name = ''apple'', xyxy = [Finite 10, Finite 10, Finite 50]\<rparr>]] = Inl ValueError"
  by code_simp

subsection \<open>The receipt\<close>

lemma receipt_loop_priced:
  assumes "\<forall>(item, cnt) \<in> set c. in_PRICE_LIST item"
  shows "\<exists>lines. receipt_loop c printed subtotal =
            Inr (printed @ lines,
                 subtotal + sum_list (map (\<lambda>(item, cnt, price, line_total). line_total) lines)) \<and>
          map (\<lambda>(item, cnt, price, line_total). (item, cnt)) lines = c \<and>
          (\<forall>(item, cnt, price, line_total) \<in> set lines.
             map_of PRICE_LIST item = Some price \<and> line_total = price * cnt)"
  using assms
proof (induction c printed subtotal rule: receipt_loop.induct)
  case (1 printed subtotal)
  then show ?case by simp
next
  case (2 item cnt rest printed subtotal)
  then obtain price where price: "map_of PRICE_LIST item = Some price"
    by (auto simp: in_PRICE_LIST_def)
  let ?line = "(item, cnt, price, price * cnt)"
  have "\<forall>(item, cnt) \<in> set rest. in_PRICE_LIST item"
    using "2.prems" by simp
  from "2.IH" [OF price refl this]
  obtain lines where lines:
    "receipt_loop rest (printed @ [?line]) (subtotal + price * cnt) =
       Inr ((printed @ [?line]) @ lines,
            (subtotal + price * cnt) +
              sum_list (map (\<lambda>(item, cnt, price, line_total). line_total) lines))"
    "map (\<lambda>(item, cnt, price, line_total). (item, cnt)) lines = rest"
    "\<forall>(item, cnt, price, line_total) \<in> set lines.
       map_of PRICE_LIST item = Some price \<and> line_total = price * cnt"
    by blast
  show ?case
  proof (intro exI [of _ "?line # lines"] conjI)
    show "receipt_loop ((item, cnt) # rest) printed subtotal =
      Inr (printed @ ?line # lines,
           subtotal + sum_list (map (\<lambda>(item, cnt, price, line_total). line_total) (?line # lines)))"
      using price lines(1) by (simp add: add.assoc Let_def)
    show "map (\<lambda>(item, cnt, price, line_total). (item, cnt)) (?line # lines) = (item, cnt) # rest"
      using lines(2) by simp
    show "\<forall>(item, cnt, price, line_total) \<in> set (?line # lines).
       map_of PRICE_LIST item = Some price \<and> line_total = price * cnt"
      using price lines(3) by simp
  qed
qed

text \<open>
  Only priced labels enter the tally, so the receipt of a session that ran without an
  error is always printed: the lookup of line 86 finds every label.
\<close>

lemma counts_incr_keys: "fst ` set (counts_incr k c) = insert k (fst ` set c)"
  by (induction k c rule: counts_incr.induct) auto

lemma priced_confirm:
  assumes "in_PRICE_LIST name" and "\<forall>k \<in> fst ` set (counts st). in_PRICE_LIST k"
  shows "\<forall>k \<in> fst ` set (counts (confirm st name b)). in_PRICE_LIST k"
proof (cases "already_seen (seen_objects st) name b")
  case True
  then show ?thesis using assms(2) by (simp add: confirm_def)
next
  case False
  then have "counts (confirm st name b) = counts_incr name (counts st)"
    by (simp add: confirm_def)
  then show ?thesis
    using assms by (simp add: counts_incr_keys)
qed

lemma priced_process_box:
  assumes "process_box st d = Inr s" and "\<forall>k \<in> fst ` set (counts st). in_PRICE_LIST k"
  shows "\<forall>k \<in> fst ` set (counts s). in_PRICE_LIST k"
proof -
  from process_box_cases [OF assms(1)]
  consider "s = st"
    | b where "in_PRICE_LIST (cls_name d)" "s = confirm st (cls_name d) b"
    by blast
  then show ?thesis
  proof cases
    case 1
    then show ?thesis using assms(2) by simp
  next
    case 2
    show ?thesis
      unfolding 2(2) using 2(1) assms(2) by (rule priced_confirm)
  qed
qed

lemma priced_process_boxes:
  "process_boxes st ds = Inr st' \<Longrightarrow> \<forall>k \<in> fst ` set (counts st). in_PRICE_LIST k \<Longrightarrow>
     \<forall>k \<in> fst ` set (counts st'). in_PRICE_LIST k"
proof (induction ds arbitrary: st)
  case Nil
  then show ?case by simp
next
  case (Cons d ds)
  from Cons.prems(1) obtain s where s: "process_box st d = Inr s" "process_boxes s ds = Inr st'"
    by (cases "process_box st d") simp_all
  have "\<forall>k \<in> fst ` set (counts s). in_PRICE_LIST k"
    using s(1) Cons.prems(2) by (rule priced_process_box)
  with s(2) show ?case by (rule Cons.IH)
qed

lemma run_cashier_prints:
  assumes "run_frames session_start frames = Inr st"
  shows "\<exists>lines subtotal. run_cashier frames = Inr (lines, subtotal)"
proof -
  have start: "\<forall>k \<in> fst ` set (counts session_start). in_PRICE_LIST k"
    by (simp add: session_start_def)
  have run: "process_boxes session_start (concat (concat frames)) = Inr st"
    using assms by (simp add: run_frames_concat)
  have keys: "\<forall>k \<in> fst ` set (counts st). in_PRICE_LIST k"
    using run start by (rule priced_process_boxes)
  have "\<forall>(item, cnt) \<in> set (counts st). in_PRICE_LIST item"
  proof (clarify)
    fix item cnt
    assume "(item, cnt) \<in> set (counts st)"
    then have "item \<in> fst ` set (counts st)"
      by (rule image_eqI [rotated]) simp
    with keys show "in_PRICE_LIST item" by (rule bspec)
  qed
  from receipt_loop_priced [OF this, of "[]" 0]
  obtain lines where "receipt_loop (counts st) [] 0 =
      Inr ([] @ lines, 0 + sum_list (map (\<lambda>(item, cnt, price, line_total). line_total) lines))"
    by blast
  then show ?thesis
    using assms by (simp add: run_cashier_def receipt_def)
qed

text \<open>
  C8. For a tally whose labels all have a price, the receipt has one line for every
  entry of the tally, in the tally's order, with the entry's label and count, the unit
  price of the label and the line total, unit price times count; the subtotal is the sum
  of the line totals. The tally of 3 apples and 1 cake, at 30 and 100, gives the line
  totals 90 and 100 and the subtotal 190.
\<close>

theorem receipt_arithmetic:
  "((\<forall>(item, cnt) \<in> set c. in_PRICE_LIST item) \<longrightarrow>
      (\<exists>lines subtotal. receipt c = Inr (lines, subtotal) \<and>
         map (\<lambda>(item, cnt, price, line_total). (item, cnt)) lines = c \<and>
         (\<forall>(item, cnt, price, line_total) \<in> set lines.
            map_of PRICE_LIST item = Some price \<and> line_total = price * cnt) \<and>
         subtotal = sum_list (map (\<lambda>(item, cnt, price, line_total). line_total) lines))) \<and>
   map_of PRICE_LIST ''apple'' = Some 30 \<and> map_of PRICE_LIST ''cake'' = Some 100 \<and>
   receipt [(''apple'', 3), (''cake'', 1)] =
     Inr ([(''apple'', 3, 30, 90), (''cake'', 1, 100, 100)], 190)"
proof (intro conjI impI)
  assume "\<forall>(item, cnt) \<in> set c. in_PRICE_LIST item"
  from receipt_loop_priced [OF this, of "[]" 0]
  show "\<exists>lines subtotal. receipt c = Inr (lines, subtotal) \<and>
         map (\<lambda>(item, cnt, price, line_total). (item, cnt)) lines = c \<and>
         (\<forall>(item, cnt, price, line_total) \<in> set lines.
            map_of PRICE_LIST item = Some price \<and> line_total = price * cnt) \<and>
         subtotal = sum_list (map (\<lambda>(item, cnt, price, line_total). line_total) lines)"
    by (auto simp: receipt_def)
next
  show "map_of PRICE_LIST ''apple'' = Some 30"
    by (simp add: PRICE_LIST_def)
next
  show "map_of PRICE_LIST ''cake'' = Some 100"
    by (simp add: PRICE_LIST_def)
next
  show "receipt [(''apple'', 3), (''cake'', 1)] =
     Inr ([(''apple'', 3, 30, 90), (''cake'', 1, 100, 100)], 190)"
    by (simp add: receipt_def PRICE_LIST_def)
qed

theorem receipt_arithmetic_witness:
  "in_PRICE_LIST ''banana'' \<and> in_PRICE_LIST ''cup'' \<and>
   receipt [(''banana'', 2), (''cup'', 1)] = Inr ([(''banana'', 2, 10, 20), (''cup'', 1, 40, 40)], 60) \<and>
   (\<exists>lines subtotal. receipt [(''banana'', 2), (''cup'', 1)] = Inr (lines, subtotal) \<and>
      subtotal = sum_list (map (\<lambda>(item, cnt, price, line_total). line_total) lines))"
proof -
  have each: "in_PRICE_LIST ''banana''" "in_PRICE_LIST ''cup''"
    by (simp_all add: in_PRICE_LIST_def PRICE_LIST_def)
  then have priced: "\<forall>(item, cnt) \<in> set [(''banana'', 2), (''cup'', 1)]. in_PRICE_LIST item"
    by simp
  have val: "receipt [(''banana'', 2), (''cup'', 1)] =
      Inr ([(''banana'', 2, 10, 20), (''cup'', 1, 40, 40)], 60)"
    by code_simp
  have "\<exists>lines subtotal. receipt [(''banana'', 2), (''cup'', 1)] = Inr (lines, subtotal) \<and>
      subtotal = sum_list (map (\<lambda>(item, cnt, price, line_total). line_total) lines)"
    using receipt_arithmetic [of "[(''banana'', 2), (''cup'', 1)]"] priced by blast
  with each val show ?thesis by blast
qed

subsection \<open>Duplicates inside one frame\<close>

text \<open>
  C9. Inside one call of \<open>update\<close>: let the detection \<open>d1\<close> be confirmed as a new object
  (priced, and no stored object of its label near its box when \<open>d1\<close> is reached). Then
  its label and box are stored from then on during the call, and a later detection
  \<open>d2\<close> of the same batch with the same label and a box that passes the proximity test
  against the box of \<open>d1\<close> is merged: the state after \<open>d2\<close> is the state before it, and
  the call gives the same result as the call on the batch without \<open>d2\<close>.
\<close>

theorem duplicate_in_batch_merged:
  assumes pre: "update st [pre] = Inr st1"
    and priced: "in_PRICE_LIST (cls_name d1)"
    and box1: "unpack_box (xyxy d1) = Inr b1"
    and fresh: "\<not> already_seen (seen_objects st1) (cls_name d1) b1"
    and same: "cls_name d2 = cls_name d1"
    and box2: "unpack_box (xyxy d2) = Inr b2"
    and near: "is_same_object b1 b2 50"
  shows "(\<forall>st2. update st [pre @ d1 # mid] = Inr st2 \<longrightarrow>
            (cls_name d1, b1) \<in> set (seen_objects st2) \<and>
            update st [pre @ d1 # mid @ [d2]] = Inr st2) \<and>
         update st [pre @ d1 # mid @ d2 # post] = update st [pre @ d1 # mid @ post]"
proof -
  let ?sa = "confirm st1 (cls_name d1) b1"
  have pre': "process_boxes st pre = Inr st1"
    using pre by (simp add: update_concat)
  have stored: "(cls_name d1, b1) \<in> set (seen_objects ?sa)"
    using fresh by (simp add: confirm_seen)
  have d1: "process_box st1 d1 = Inr ?sa"
    using priced box1 by (rule process_box_priced)
  have merged: "process_box s d2 = Inr s" if "(cls_name d1, b1) \<in> set (seen_objects s)" for s
  proof -
    have "already_seen (seen_objects s) (cls_name d1) b2"
      using that near by (auto simp: already_seen_iff)
    then show ?thesis
      using priced box2 same by (simp add: process_box_priced confirm_def)
  qed
  have upto: "process_boxes st (pre @ d1 # mid) = process_boxes ?sa mid"
    using pre' d1 by (simp add: process_boxes_append)
  have a: "(cls_name d1, b1) \<in> set (seen_objects st2) \<and> update st [pre @ d1 # mid @ [d2]] = Inr st2"
    if "update st [pre @ d1 # mid] = Inr st2" for st2
  proof -
    have mid: "process_boxes ?sa mid = Inr st2"
      using that upto by (simp add: update_concat)
    then have in2: "(cls_name d1, b1) \<in> set (seen_objects st2)"
      using stored by (rule seen_kept_process_boxes)
    have "process_boxes st (pre @ d1 # mid @ [d2]) = Inr st2"
      using pre' d1 mid merged [OF in2]
      by (simp add: process_boxes_append)
    with in2 show ?thesis by (simp add: update_concat)
  qed
  have b: "update st [pre @ d1 # mid @ d2 # post] = update st [pre @ d1 # mid @ post]"
  proof (cases "process_boxes ?sa mid")
    case (Inl e)
    then show ?thesis
      using pre' d1 by (simp add: update_concat process_boxes_append)
  next
    case (Inr st2)
    then have "(cls_name d1, b1) \<in> set (seen_objects st2)"
      using stored by (rule seen_kept_process_boxes)
    from merged [OF this] show ?thesis
      using pre' d1 Inr by (simp add: update_concat process_boxes_append)
  qed
  from a b show ?thesis by blast
qed

theorem duplicate_in_batch_merged_witness:
  "update session_start [[pixel_detection ''banana'' (0, 0, 30, 30)]] =
     Inr \<lparr>counts = [(''banana'', 1)], seen_objects = [(''banana'', 0, 0, 30, 30)]\<rparr> \<and>
   \<not> already_seen [(''banana'', 0, 0, 30, 30)] ''apple'' (10, 10, 50, 50) \<and>
   is_same_object (10, 10, 50, 50) (12, 11, 52, 51) 50 \<and>
   update session_start
     [[pixel_detection ''banana'' (0, 0, 30, 30)] @ pixel_detection ''apple'' (10, 10, 50, 50) #
      [pixel_detection ''cup'' (10, 10, 50, 50)]] =
     Inr \<lparr>counts = [(''banana'', 1), (''apple'', 1), (''cup'', 1)],
          seen_objects = [(''banana'', 0, 0, 30, 30), (''apple'', 10, 10, 50, 50),
                          (''cup'', 10, 10, 50, 50)]\<rparr> \<and>
   update session_start
     [[pixel_detection ''banana'' (0, 0, 30, 30)] @ pixel_detection ''apple'' (10, 10, 50, 50) #
      [pixel_detection ''cup'' (10, 10, 50, 50)] @ [pixel_detection ''apple'' (12, 11, 52, 51)]] =
     Inr \<lparr>counts = [(''banana'', 1), (''apple'', 1), (''cup'', 1)],
          seen_objects = [(''banana'', 0, 0, 30, 30), (''apple'', 10, 10, 50, 50),
                          (''cup'', 10, 10, 50, 50)]\<rparr>"
proof -
  let ?pre = "[pixel_detection ''banana'' (0, 0, 30, 30)]"
  let ?d1 = "pixel_detection ''apple'' (10, 10, 50, 50)"
  let ?mid = "[pixel_detection ''cup'' (10, 10, 50, 50)]"
  let ?d2 = "pixel_detection ''apple'' (12, 11, 52, 51)"
  let ?st1 = "\<lparr>counts = [(''banana'', 1)], seen_objects = [(''banana'', 0, 0, 30, 30)]\<rparr>"
  let ?st2 = "\<lparr>counts = [(''banana'', 1), (''apple'', 1), (''cup'', 1)],
          seen_objects = [(''banana'', 0, 0, 30, 30), (''apple'', 10, 10, 50, 50),
                          (''cup'', 10, 10, 50, 50)]\<rparr>"
  have pre: "update session_start [?pre] = Inr ?st1"
    by code_simp
  have priced: "in_PRICE_LIST (cls_name ?d1)"
    by code_simp
  have box1: "unpack_box (xyxy ?d1) = Inr (10, 10, 50, 50)"
    by code_simp
  have fresh: "\<not> already_seen [(''banana'', 0, 0, 30, 30)] ''apple'' (10, 10, 50, 50)"
    by simp
  have fresh': "\<not> already_seen (seen_objects ?st1) (cls_name ?d1) (10, 10, 50, 50)"
    by (simp add: pixel_detection_def)
  have same: "cls_name ?d2 = cls_name ?d1"
    by (simp add: pixel_detection_def)
  have box2: "unpack_box (xyxy ?d2) = Inr (12, 11, 52, 51)"
    by code_simp
  have near: "is_same_object (10, 10, 50, 50) (12, 11, 52, 51) 50"
    by simp
  have upto: "update session_start [?pre @ ?d1 # ?mid] = Inr ?st2"
    by code_simp
  have "update session_start [?pre @ ?d1 # ?mid @ [?d2]] = Inr ?st2"
    using duplicate_in_batch_merged [OF pre priced box1 fresh' same box2 near, of ?mid "[]"] upto
    by blast
  with pre fresh near upto show ?thesis by blast
qed

subsection \<open>The order inside a frame\<close>

text \<open>
  C10. The result of \<open>update\<close> depends on the order of the detections in the frame:
  three apples whose centres lie at 10, 50 and 90 along the x axis (0, 40 and 80 pixels
  from the first) give the tally 2 in this order, and the tally 1 when the middle one
  comes first.
\<close>

theorem batch_order_matters:
  "mset [pixel_detection ''apple'' (40, 0, 60, 20), pixel_detection ''apple'' (0, 0, 20, 20),
         pixel_detection ''apple'' (80, 0, 100, 20)] =
   mset [pixel_detection ''apple'' (0, 0, 20, 20), pixel_detection ''apple'' (40, 0, 60, 20),
         pixel_detection ''apple'' (80, 0, 100, 20)] \<and>
   (\<exists>st st'.
      update session_start
        [[pixel_detection ''apple'' (0, 0, 20, 20), pixel_detection ''apple'' (40, 0, 60, 20),
          pixel_detection ''apple'' (80, 0, 100, 20)]] = Inr st \<and>
      update session_start
        [[pixel_detection ''apple'' (40, 0, 60, 20), pixel_detection ''apple'' (0, 0, 20, 20),
          pixel_detection ''apple'' (80, 0, 100, 20)]] = Inr st' \<and>
      counts_get (counts st) ''apple'' = 2 \<and> counts_get (counts st') ''apple'' = 1)"
proof -
  have m: "mset [pixel_detection ''apple'' (40, 0, 60, 20), pixel_detection ''apple'' (0, 0, 20, 20),
         pixel_detection ''apple'' (80, 0, 100, 20)] =
     mset [pixel_detection ''apple'' (0, 0, 20, 20), pixel_detection ''apple'' (40, 0, 60, 20),
         pixel_detection ''apple'' (80, 0, 100, 20)]"
    by simp
  have a: "update session_start
        [[pixel_detection ''apple'' (0, 0, 20, 20), pixel_detection ''apple'' (40, 0, 60, 20),
          pixel_detection ''apple'' (80, 0, 100, 20)]] =
      Inr \<lparr>counts = [(''apple'', 2)],
           seen_objects = [(''apple'', 0, 0, 20, 20), (''apple'', 80, 0, 100, 20)]\<rparr>"
    by code_simp
  have b: "update session_start
        [[pixel_detection ''apple'' (40, 0, 60, 20), pixel_detection ''apple'' (0, 0, 20, 20),
          pixel_detection ''apple'' (80, 0, 100, 20)]] =
      Inr \<lparr>counts = [(''apple'', 1)], seen_objects = [(''apple'', 40, 0, 60, 20)]\<rparr>"
    by code_simp
  show ?thesis
    unfolding a b using m by (simp add: counts_get_def)
qed

end
